theory Spec2Isabelle
  imports Complex_Main
begin

section \<open>JavaScript array primitives used by the two managers\<close>

text \<open>
  \<^verbatim>\<open>Array.prototype.findIndex\<close>: the index of the first element satisfying the
  predicate, or \<open>-1\<close> when there is none. The counter is the index of the head.
\<close>

fun findIndex_from :: "('a \<Rightarrow> bool) \<Rightarrow> 'a list \<Rightarrow> int \<Rightarrow> int" where
  "findIndex_from P [] i = - 1"
| "findIndex_from P (x # xs) i = (if P x then i else findIndex_from P xs (i + 1))"

definition findIndex :: "('a \<Rightarrow> bool) \<Rightarrow> 'a list \<Rightarrow> int" where
  "findIndex P xs = findIndex_from P xs 0"

text \<open>
  \<^verbatim>\<open>xs.slice(start)\<close>: a fresh array holding the elements from \<open>start\<close> on; a negative
  \<open>start\<close> counts from the end and is clamped at the front.
\<close>

definition slice :: "'a list \<Rightarrow> int \<Rightarrow> 'a list" where
  "slice xs start =
     (if start < 0 then drop (nat (max (int (length xs) + start) 0)) xs
      else drop (nat start) xs)"

text \<open>
  \<^verbatim>\<open>xs.splice(start, 1)\<close> for \<open>start \<ge> 0\<close> (the only way the overlay stack calls it):
  removes the element at \<open>start\<close>, if there is one, in place.
\<close>

definition splice1 :: "'a list \<Rightarrow> int \<Rightarrow> 'a list" where
  "splice1 xs start = take (nat start) xs @ drop (Suc (nat start)) xs"

text \<open>\<^verbatim>\<open>xs.at(-1)\<close>: the last element, or \<open>undefined\<close> on the empty array.\<close>

definition at_last :: "'a list \<Rightarrow> 'a option" where
  "at_last xs = (case xs of [] \<Rightarrow> None | _ \<Rightarrow> Some (last xs))"


section \<open>Overlay stack (\<open>useOverlayStack\<close>)\<close>

record OverlayProps =
  usePortal :: bool
  hasBackdrop :: bool

record OverlayInstance =
  overlay_id :: string
  props :: OverlayProps

text \<open>
  The state the hook's callbacks act on: \<open>stack.current\<close>, and whether
  \<open>document.body.classList\<close> holds \<open>Classes.OVERLAY_OPEN\<close> (the scroll lock).
\<close>

record OverlayStack =
  stack :: "OverlayInstance list"
  body_overlay_open :: bool

definition empty_OverlayStack :: OverlayStack where
  "empty_OverlayStack = \<lparr>stack = [], body_overlay_open = False\<rparr>"

text \<open>The test \<^verbatim>\<open>o.props.usePortal && o.props.hasBackdrop\<close>.\<close>

definition portal_backdrop :: "OverlayInstance \<Rightarrow> bool" where
  "portal_backdrop ov = (usePortal (props ov) \<and> hasBackdrop (props ov))"

definition same_id :: "OverlayInstance \<Rightarrow> OverlayInstance \<Rightarrow> bool" where
  "same_id overlay ov = (overlay_id ov = overlay_id overlay)"

definition getLastOpened :: "OverlayStack \<Rightarrow> OverlayInstance option" where
  "getLastOpened st = at_last (stack st)"

text \<open>
  \<open>getThisOverlayAndDescendants\<close> returns its result together with the state it leaves
  behind, so that what it does to the stack is part of the model.
\<close>

definition getThisOverlayAndDescendants ::
  "OverlayStack \<Rightarrow> OverlayInstance \<Rightarrow> OverlayInstance list \<times> OverlayStack" where
  "getThisOverlayAndDescendants st overlay =
     (let index = findIndex (same_id overlay) (stack st)
      in if index = - 1 then ([], st) else (slice (stack st) index, st))"

definition resetStack :: "OverlayStack \<Rightarrow> OverlayStack" where
  "resetStack st = st\<lparr>stack := []\<rparr>"

definition openOverlay :: "OverlayStack \<Rightarrow> OverlayInstance \<Rightarrow> OverlayStack" where
  "openOverlay st overlay =
     (let st1 = st\<lparr>stack := stack st @ [overlay]\<rparr>
      in if usePortal (props overlay) \<and> hasBackdrop (props overlay)
         then st1\<lparr>body_overlay_open := True\<rparr>
         else st1)"

definition closeOverlay :: "OverlayStack \<Rightarrow> OverlayInstance \<Rightarrow> OverlayStack" where
  "closeOverlay st overlay =
     (let otherOverlaysWithBackdrop =
            filter (\<lambda>ov. usePortal (props ov) \<and> hasBackdrop (props ov)
                          \<and> overlay_id ov \<noteq> overlay_id overlay) (stack st);
          index = findIndex (same_id overlay) (stack st);
          st1 = (if index > - 1 then st\<lparr>stack := splice1 (stack st) index\<rparr> else st)
      in if length otherOverlaysWithBackdrop = 0
         then st1\<lparr>body_overlay_open := False\<rparr>
         else st1)"

text \<open>Call sequences on the hook's operations that change the state.\<close>

datatype overlay_op =
    OpenOverlay OverlayInstance
  | CloseOverlay OverlayInstance
  | ResetStack

fun overlay_step :: "OverlayStack \<Rightarrow> overlay_op \<Rightarrow> OverlayStack" where
  "overlay_step st (OpenOverlay ov) = openOverlay st ov"
| "overlay_step st (CloseOverlay ov) = closeOverlay st ov"
| "overlay_step st ResetStack = resetStack st"

fun overlay_run :: "OverlayStack \<Rightarrow> overlay_op list \<Rightarrow> OverlayStack" where
  "overlay_run st [] = st"
| "overlay_run st (c # cs) = overlay_run (overlay_step st c) cs"

text \<open>
  The scroll lock the stack calls for: some overlay on it has both \<open>usePortal\<close> and
  \<open>hasBackdrop\<close>.
\<close>

definition some_portal_backdrop :: "OverlayInstance list \<Rightarrow> bool" where
  "some_portal_backdrop ovs = list_ex portal_backdrop ovs"

definition on_stack :: "OverlayStack \<Rightarrow> OverlayInstance \<Rightarrow> bool" where
  "on_stack st overlay = list_ex (same_id overlay) (stack st)"

text \<open>The invariant of disciplined use: ids are unique and the flag follows the stack.\<close>

definition stack_inv :: "OverlayStack \<Rightarrow> bool" where
  "stack_inv st = (distinct (map overlay_id (stack st))
                   \<and> body_overlay_open st = some_portal_backdrop (stack st))"

text \<open>
  Disciplined call sequences: \<open>openOverlay\<close> is only given an overlay whose id is not on
  the stack, and \<open>resetStack\<close> is only called when no overlay on the stack has both
  \<open>usePortal\<close> and \<open>hasBackdrop\<close> (in particular after all overlays are closed, as its
  documentation asks).
\<close>

fun overlay_call_ok :: "OverlayStack \<Rightarrow> overlay_op \<Rightarrow> bool" where
  "overlay_call_ok st (OpenOverlay ov) = (\<not> on_stack st ov)"
| "overlay_call_ok st (CloseOverlay ov) = True"
| "overlay_call_ok st ResetStack = (\<not> some_portal_backdrop (stack st))"

fun overlay_calls_ok :: "OverlayStack \<Rightarrow> overlay_op list \<Rightarrow> bool" where
  "overlay_calls_ok st [] = True"
| "overlay_calls_ok st (c # cs) = (overlay_call_ok st c \<and> overlay_calls_ok (overlay_step st c) cs)"

text \<open>The same with no constraint on \<open>resetStack\<close>: only fresh ids are opened.\<close>

fun overlay_opens_fresh :: "OverlayStack \<Rightarrow> overlay_op list \<Rightarrow> bool" where
  "overlay_opens_fresh st [] = True"
| "overlay_opens_fresh st (OpenOverlay ov # cs) =
     (\<not> on_stack st ov \<and> overlay_opens_fresh (openOverlay st ov) cs)"
| "overlay_opens_fresh st (c # cs) = overlay_opens_fresh (overlay_step st c) cs"


section \<open>Toast queue (\<open>OverlayToaster\<close>)\<close>

datatype js_error = TOASTER_MAX_TOASTS_INVALID | TypeError

text \<open>
  A dismissal callback is an opaque handle; invoking it is recorded, with the argument it
  received, at the end of the trace \<open>onDismiss_calls\<close> of the toaster. Callbacks do not
  call back into the toaster.
\<close>

type_synonym callback = string

text \<open>
  \<open>ToastProps\<close>: \<open>message\<close> stands for the display props, which the queue only copies.
  \<open>ToastOptions\<close> is \<open>ToastProps\<close> with a \<open>key\<close>.
\<close>

record ToastProps =
  message :: string
  onDismiss :: "callback option"

record ToastOptions = ToastProps +
  key :: string

text \<open>
  A JavaScript number: a finite value (taken as the exact rational it denotes), \<open>NaN\<close>
  or an infinity. The three tests the toaster makes on \<open>maxToasts\<close> follow: \<^verbatim>\<open>a < b\<close>,
  \<^verbatim>\<open>a === b\<close> and truthiness. Every comparison with \<open>NaN\<close> is false; \<open>0\<close> and \<open>NaN\<close>
  are falsy.
\<close>

datatype js_number = Number rat | NaN | PosInfinity | NegInfinity

fun js_lt :: "js_number \<Rightarrow> js_number \<Rightarrow> bool" where
  "js_lt (Number x) (Number y) = (x < y)"
| "js_lt (Number x) PosInfinity = True"
| "js_lt NegInfinity (Number y) = True"
| "js_lt NegInfinity PosInfinity = True"
| "js_lt a b = False"

fun js_strict_eq :: "js_number \<Rightarrow> js_number \<Rightarrow> bool" where
  "js_strict_eq (Number x) (Number y) = (x = y)"
| "js_strict_eq PosInfinity PosInfinity = True"
| "js_strict_eq NegInfinity NegInfinity = True"
| "js_strict_eq a b = False"

fun js_truthy :: "js_number \<Rightarrow> bool" where
  "js_truthy (Number x) = (x \<noteq> 0)"
| "js_truthy NaN = False"
| "js_truthy PosInfinity = True"
| "js_truthy NegInfinity = True"

text \<open>\<^verbatim>\<open>a >= b\<close>, which only the statements below use: neither is \<open>NaN\<close> and \<open>a\<close> is not less.\<close>

definition js_ge :: "js_number \<Rightarrow> js_number \<Rightarrow> bool" where
  "js_ge a b = (a \<noteq> NaN \<and> b \<noteq> NaN \<and> \<not> js_lt a b)"

text \<open>
  The one prop of \<open>OverlayToasterProps\<close> the queue reads. \<open>maxToasts\<close> is an optional
  number (\<open>None\<close> is \<open>undefined\<close>).
\<close>

record OverlayToasterProps =
  maxToasts :: "js_number option"

text \<open>
  What the methods read and write on the component: \<open>state.toasts\<close> (newest first), the
  counter \<open>toastId\<close> for un-keyed toasts, and the trace of callback invocations. The DOM
  refs \<open>toastRefs\<close>, recomputed from the toast list after every update, are not part of
  the model.
\<close>

record OverlayToaster =
  toasts :: "ToastOptions list"
  toastId :: nat
  onDismiss_calls :: "(callback \<times> bool) list"

definition initial_OverlayToaster :: OverlayToaster where
  "initial_OverlayToaster = \<lparr>toasts = [], toastId = 0, onDismiss_calls = []\<rparr>"

text \<open>\<^verbatim>\<open>maxToasts !== undefined && maxToasts < 1\<close> throws.\<close>

definition validateProps :: "OverlayToasterProps \<Rightarrow> js_error + unit" where
  "validateProps p =
     (case maxToasts p of
        None \<Rightarrow> Inr ()
      | Some n \<Rightarrow> if js_lt n (Number 1) then Inl TOASTER_MAX_TOASTS_INVALID else Inr ())"

text \<open>Decimal rendering of the counter inside the template string \<^verbatim>\<open>toast-${n}\<close>.\<close>

definition digit_char :: "nat \<Rightarrow> char" where
  "digit_char d = ''0123456789'' ! (d mod 10)"

fun string_of_nat :: "nat \<Rightarrow> string" where
  "string_of_nat n =
     (if n < 10 then [digit_char n] else string_of_nat (n div 10) @ [digit_char (n mod 10)])"

declare string_of_nat.simps [simp del]

definition auto_key :: "nat \<Rightarrow> string" where
  "auto_key n = ''toast-'' @ string_of_nat n"

text \<open>
  \<open>createToastOptions(props, key = `toast-${this.toastId++}`)\<close> returns the clone
  \<^verbatim>\<open>{ ...props, key }\<close>; the default is only evaluated, and the counter only advanced,
  when no key is passed.
\<close>

definition createToastOptions ::
  "OverlayToaster \<Rightarrow> ToastProps \<Rightarrow> string option \<Rightarrow> ToastOptions \<times> OverlayToaster" where
  "createToastOptions st tp k =
     (case k of
        None \<Rightarrow>
          (\<lparr>message = message tp, onDismiss = onDismiss tp, key = auto_key (toastId st)\<rparr>,
           st\<lparr>toastId := toastId st + 1\<rparr>)
      | Some key' \<Rightarrow>
          (\<lparr>message = message tp, onDismiss = onDismiss tp, key = key'\<rparr>, st))"

definition isNewToastKey :: "OverlayToaster \<Rightarrow> string \<Rightarrow> bool" where
  "isNewToastKey st k = list_all (\<lambda>toast. key toast \<noteq> k) (toasts st)"

text \<open>
  The filter callback of \<open>dismiss\<close>, run over the list front to back: a toast whose key
  matches has its \<open>onDismiss\<close> invoked (when it has one) and is dropped; the others are
  kept. The second component is the trace, extended as the callbacks are invoked.
\<close>

fun dismiss_filter ::
  "string \<Rightarrow> bool \<Rightarrow> ToastOptions list \<Rightarrow> (callback \<times> bool) list
     \<Rightarrow> ToastOptions list \<times> (callback \<times> bool) list" where
  "dismiss_filter k timeoutExpired [] tr = ([], tr)"
| "dismiss_filter k timeoutExpired (t # ts) tr =
     (let matchesKey = (key t = k);
          tr1 = (if matchesKey
                 then (case onDismiss t of None \<Rightarrow> tr | Some cb \<Rightarrow> tr @ [(cb, timeoutExpired)])
                 else tr);
          (kept, tr2) = dismiss_filter k timeoutExpired ts tr1
      in (if \<not> matchesKey then t # kept else kept, tr2))"

text \<open>
  \<open>dismiss(key, timeoutExpired = false)\<close>, with \<open>None\<close> for the omitted argument, in the
  case where React applies the update before the call returns and runs the updater once:
  the state given is the \<open>prevState\<close> the updater receives, the result is the state it
  leaves. This is the call outside a batch and outside \<open>StrictMode\<close>; \<open>dismiss_call\<close> below
  is the call in any mode.
\<close>

definition dismiss :: "OverlayToaster \<Rightarrow> string \<Rightarrow> bool option \<Rightarrow> OverlayToaster" where
  "dismiss st k te =
     (let timeoutExpired = (case te of None \<Rightarrow> False | Some b \<Rightarrow> b);
          (kept, tr) = dismiss_filter k timeoutExpired (toasts st) (onDismiss_calls st)
      in st\<lparr>toasts := kept, onDismiss_calls := tr\<rparr>)"

text \<open>The test \<^verbatim>\<open>this.state.toasts.length === this.props.maxToasts\<close>.\<close>

definition length_is_maxToasts :: "OverlayToasterProps \<Rightarrow> OverlayToaster \<Rightarrow> bool" where
  "length_is_maxToasts p st =
     (case maxToasts p of
        None \<Rightarrow> False
      | Some n \<Rightarrow> js_strict_eq (Number (of_nat (length (toasts st)))) n)"

text \<open>
  \<open>dismissIfAtLimit\<close>: reading \<open>.key\<close> of \<^verbatim>\<open>toasts[toasts.length - 1]\<close> on an empty
  list is a \<open>TypeError\<close>. As \<open>dismiss\<close> above, with the update applied at once.
\<close>

definition dismissIfAtLimit :: "OverlayToasterProps \<Rightarrow> OverlayToaster \<Rightarrow> js_error + OverlayToaster" where
  "dismissIfAtLimit p st =
     (if length_is_maxToasts p st
      then (case toasts st of
              [] \<Rightarrow> Inl TypeError
            | _ \<Rightarrow> Inr (dismiss st (key (last (toasts st))) None))
      else Inr st)"

text \<open>The truthiness test \<^verbatim>\<open>if (this.props.maxToasts)\<close>.\<close>

definition truthy_maxToasts :: "OverlayToasterProps \<Rightarrow> bool" where
  "truthy_maxToasts p = (case maxToasts p of None \<Rightarrow> False | Some n \<Rightarrow> js_truthy n)"

text \<open>
  \<open>show(props, key?)\<close> returns the resolved key and the new state, in the case where React
  applies every update before the call goes on, so that the state \<open>dismissIfAtLimit\<close> and
  \<open>isNewToastKey\<close> read as \<open>this.state\<close> is the \<open>prevState\<close> of the updater: one call
  outside a batch. \<open>show_call\<close> below is the call in any mode.
\<close>

definition show_toast ::
  "OverlayToasterProps \<Rightarrow> OverlayToaster \<Rightarrow> ToastProps \<Rightarrow> string option
     \<Rightarrow> js_error + (string \<times> OverlayToaster)" where
  "show_toast p st tp k =
     (case (if truthy_maxToasts p then dismissIfAtLimit p st else Inr st) of
        Inl e \<Rightarrow> Inl e
      | Inr st1 \<Rightarrow>
          (let (options, st2) = createToastOptions st1 tp k;
               toasts' =
                 (case k of
                    None \<Rightarrow> options # toasts st2
                  | Some key' \<Rightarrow>
                      if isNewToastKey st2 key' then options # toasts st2
                      else map (\<lambda>t. if key t = key' then options else t) (toasts st2))
           in Inr (key options, st2\<lparr>toasts := toasts'\<rparr>)))"

text \<open>
  \<open>clear()\<close>: every toast's callback, front to back, with \<open>false\<close>; then the list is
  emptied. Again with the update applied at once; \<open>clear_call\<close> below is the call in any
  mode.
\<close>

fun clear_calls :: "ToastOptions list \<Rightarrow> (callback \<times> bool) list \<Rightarrow> (callback \<times> bool) list" where
  "clear_calls [] tr = tr"
| "clear_calls (t # ts) tr =
     clear_calls ts (case onDismiss t of None \<Rightarrow> tr | Some cb \<Rightarrow> tr @ [(cb, False)])"

definition clear :: "OverlayToaster \<Rightarrow> OverlayToaster" where
  "clear st = st\<lparr>onDismiss_calls := clear_calls (toasts st) (onDismiss_calls st), toasts := []\<rparr>"

definition getToasts :: "OverlayToaster \<Rightarrow> ToastOptions list" where
  "getToasts st = toasts st"

text \<open>
  Specification side: the invocations \<open>dismiss\<close> owes for a list of toasts, one per toast
  that has a callback, in list order, each with the given flag.
\<close>

definition dismiss_calls :: "bool \<Rightarrow> ToastOptions list \<Rightarrow> (callback \<times> bool) list" where
  "dismiss_calls timeoutExpired ts = map (\<lambda>cb. (cb, timeoutExpired)) (List.map_filter onDismiss ts)"


section \<open>Toast queue under React's update queue\<close>

text \<open>
  Every method changes \<open>state.toasts\<close> through \<open>this.setState\<close>, which does not assign:
  it puts an update on the component's queue. React processes the queue later, at the
  end of the batch the call was made in (an event handler; any call under \<open>createRoot\<close>),
  or at once when the call is made outside a batch under the legacy renderer, which is
  how \<open>OverlayToaster.create\<close> mounts the component. Until then \<open>this.state\<close> is the state
  of the last render. In development \<open>StrictMode\<close> React runs every updater function
  twice on the same \<open>prevState\<close> and keeps the second result.
\<close>

record ReactMode =
  batched :: bool
  strictMode :: bool

text \<open>
  The three payloads the methods pass to \<open>setState\<close>: the updater of \<open>show\<close> (a closure
  over \<open>options\<close> and \<open>key\<close>), the updater of \<open>dismiss\<close> (a closure over \<open>key\<close> and
  \<open>timeoutExpired\<close>), and the object \<^verbatim>\<open>{ toasts: [], toastRefs: {} }\<close> of \<open>clear\<close>.
\<close>

datatype update =
    ShowUpdate ToastOptions "string option"
  | DismissUpdate string bool
  | ClearUpdate

text \<open>
  The mounted component: \<open>current\<close> holds \<open>this.state.toasts\<close> as of the last processed
  update, the field \<open>toastId\<close> and the trace; \<open>updateQueue\<close> holds the pending updates,
  oldest first.
\<close>

record OverlayToasterInstance =
  current :: OverlayToaster
  updateQueue :: "update list"

definition new_OverlayToasterInstance :: OverlayToasterInstance where
  "new_OverlayToasterInstance = \<lparr>current = initial_OverlayToaster, updateQueue = []\<rparr>"

text \<open>
  The updater of \<open>show\<close>, \<^verbatim>\<open>prevState => ...\<close>: it prepends to or maps over
  \<open>prevState.toasts\<close>, but \<open>isNewToastKey\<close> inside it reads \<open>this.state.toasts\<close>.
\<close>

definition show_updater ::
  "OverlayToaster \<Rightarrow> ToastOptions \<Rightarrow> string option \<Rightarrow> OverlayToaster \<Rightarrow> OverlayToaster" where
  "show_updater this options k prevState =
     prevState\<lparr>toasts :=
       (case k of
          None \<Rightarrow> options # toasts prevState
        | Some key' \<Rightarrow>
            if isNewToastKey this key' then options # toasts prevState
            else map (\<lambda>t. if key t = key' then options else t) (toasts prevState))\<rparr>"

text \<open>
  One update of the queue applied to \<open>prevState\<close>, with \<open>this\<close> the component as the
  updater sees it. A function payload is called a first time, for its effects only, under
  \<open>StrictMode\<close>; what the first call appended to the trace stays.
\<close>

fun payload :: "OverlayToaster \<Rightarrow> update \<Rightarrow> OverlayToaster \<Rightarrow> OverlayToaster" where
  "payload this (ShowUpdate options k) prevState = show_updater this options k prevState"
| "payload this (DismissUpdate k timeoutExpired) prevState = dismiss prevState k (Some timeoutExpired)"
| "payload this ClearUpdate prevState = prevState\<lparr>toasts := []\<rparr>"

fun is_function :: "update \<Rightarrow> bool" where
  "is_function ClearUpdate = False"
| "is_function u = True"

definition getStateFromUpdate ::
  "bool \<Rightarrow> OverlayToaster \<Rightarrow> update \<Rightarrow> OverlayToaster \<Rightarrow> OverlayToaster" where
  "getStateFromUpdate strict this u prevState =
     (if strict \<and> is_function u
      then payload this u
             (prevState\<lparr>onDismiss_calls := onDismiss_calls (payload this u prevState)\<rparr>)
      else payload this u prevState)"

fun processUpdateQueue ::
  "bool \<Rightarrow> OverlayToaster \<Rightarrow> update list \<Rightarrow> OverlayToaster \<Rightarrow> OverlayToaster" where
  "processUpdateQueue strict this [] st = st"
| "processUpdateQueue strict this (u # us) st =
     processUpdateQueue strict this us (getStateFromUpdate strict this u st)"

text \<open>
  React processing the queue: \<open>this.state\<close> stays the state of the last render while the
  updaters run, and is assigned the result afterwards.
\<close>

definition flush :: "ReactMode \<Rightarrow> OverlayToasterInstance \<Rightarrow> OverlayToasterInstance" where
  "flush m i =
     \<lparr>current = processUpdateQueue (strictMode m) (current i) (updateQueue i) (current i),
      updateQueue = []\<rparr>"

definition setState :: "ReactMode \<Rightarrow> update \<Rightarrow> OverlayToasterInstance \<Rightarrow> OverlayToasterInstance" where
  "setState m u i =
     (let i1 = i\<lparr>updateQueue := updateQueue i @ [u]\<rparr>
      in if batched m then i1 else flush m i1)"

text \<open>The methods as the source writes them, over \<open>setState\<close>.\<close>

definition dismiss_call ::
  "ReactMode \<Rightarrow> OverlayToasterInstance \<Rightarrow> string \<Rightarrow> bool option \<Rightarrow> OverlayToasterInstance" where
  "dismiss_call m i k te =
     (let timeoutExpired = (case te of None \<Rightarrow> False | Some b \<Rightarrow> b)
      in setState m (DismissUpdate k timeoutExpired) i)"

definition dismissIfAtLimit_call ::
  "OverlayToasterProps \<Rightarrow> ReactMode \<Rightarrow> OverlayToasterInstance \<Rightarrow> js_error + OverlayToasterInstance" where
  "dismissIfAtLimit_call p m i =
     (if length_is_maxToasts p (current i)
      then (case toasts (current i) of
              [] \<Rightarrow> Inl TypeError
            | _ \<Rightarrow> Inr (dismiss_call m i (key (last (toasts (current i)))) None))
      else Inr i)"

definition show_call ::
  "OverlayToasterProps \<Rightarrow> ReactMode \<Rightarrow> OverlayToasterInstance \<Rightarrow> ToastProps \<Rightarrow> string option
     \<Rightarrow> js_error + (string \<times> OverlayToasterInstance)" where
  "show_call p m i tp k =
     (case (if truthy_maxToasts p then dismissIfAtLimit_call p m i else Inr i) of
        Inl e \<Rightarrow> Inl e
      | Inr i1 \<Rightarrow>
          (let (options, st2) = createToastOptions (current i1) tp k
           in Inr (key options, setState m (ShowUpdate options k) (i1\<lparr>current := st2\<rparr>))))"

definition clear_call :: "ReactMode \<Rightarrow> OverlayToasterInstance \<Rightarrow> OverlayToasterInstance" where
  "clear_call m i =
     setState m ClearUpdate
       (i\<lparr>current := (current i)\<lparr>onDismiss_calls :=
            clear_calls (toasts (current i)) (onDismiss_calls (current i))\<rparr>\<rparr>)"

text \<open>
  Modelled from the spec: the constructor of the component, inherited from
  \<open>AbstractPureComponent\<close>, is not under \<open>src/\<close>. The spec has the queue validate its
  configuration at construction and reject it there: the constructor runs
  \<open>validateProps\<close> on the props and, when that does not throw, yields the component with
  an empty toast list.
\<close>

definition OverlayToaster_constructor :: "OverlayToasterProps \<Rightarrow> js_error + OverlayToasterInstance" where
  "OverlayToaster_constructor p =
     (case validateProps p of
        Inl e \<Rightarrow> Inl e
      | Inr _ \<Rightarrow> Inr new_OverlayToasterInstance)"

text \<open>
  Call sequences on the toaster; an exception ends the run. \<open>Flush\<close> is React processing
  the queue at the end of a batch.
\<close>

datatype toast_op =
    Show ToastProps "string option"
  | Dismiss string "bool option"
  | Clear
  | Flush

fun toast_step ::
  "OverlayToasterProps \<Rightarrow> ReactMode \<Rightarrow> OverlayToasterInstance \<Rightarrow> toast_op
     \<Rightarrow> js_error + OverlayToasterInstance" where
  "toast_step p m i (Show tp k) =
     (case show_call p m i tp k of Inl e \<Rightarrow> Inl e | Inr (_, i') \<Rightarrow> Inr i')"
| "toast_step p m i (Dismiss k te) = Inr (dismiss_call m i k te)"
| "toast_step p m i Clear = Inr (clear_call m i)"
| "toast_step p m i Flush = Inr (flush m i)"

fun toast_run ::
  "OverlayToasterProps \<Rightarrow> ReactMode \<Rightarrow> OverlayToasterInstance \<Rightarrow> toast_op list
     \<Rightarrow> js_error + OverlayToasterInstance" where
  "toast_run p m i [] = Inr i"
| "toast_run p m i (c # cs) =
     (case toast_step p m i c of Inl e \<Rightarrow> Inl e | Inr i' \<Rightarrow> toast_run p m i' cs)"

definition has_key :: "string \<Rightarrow> ToastOptions list \<Rightarrow> bool" where
  "has_key k ts = list_ex (\<lambda>t. key t = k) ts"

text \<open>
  Call sequences in which no un-keyed \<open>show\<close> generates a key that a toast of the list
  already holds at that call.
\<close>

fun toast_call_ok :: "OverlayToasterInstance \<Rightarrow> toast_op \<Rightarrow> bool" where
  "toast_call_ok i (Show tp None) =
     (\<not> has_key (auto_key (toastId (current i))) (toasts (current i)))"
| "toast_call_ok i c = True"

fun toast_calls_ok ::
  "OverlayToasterProps \<Rightarrow> ReactMode \<Rightarrow> OverlayToasterInstance \<Rightarrow> toast_op list \<Rightarrow> bool" where
  "toast_calls_ok p m i [] = True"
| "toast_calls_ok p m i (c # cs) =
     (toast_call_ok i c \<and>
      (case toast_step p m i c of Inl e \<Rightarrow> True | Inr i' \<Rightarrow> toast_calls_ok p m i' cs))"


section \<open>Example values\<close>

definition dialog_a :: OverlayInstance where
  "dialog_a = \<lparr>overlay_id = ''a'', props = \<lparr>usePortal = True, hasBackdrop = True\<rparr>\<rparr>"

definition popover_b :: OverlayInstance where
  "popover_b = \<lparr>overlay_id = ''b'', props = \<lparr>usePortal = True, hasBackdrop = False\<rparr>\<rparr>"

definition dialog_c :: OverlayInstance where
  "dialog_c = \<lparr>overlay_id = ''c'', props = \<lparr>usePortal = True, hasBackdrop = True\<rparr>\<rparr>"

definition three_overlays :: OverlayStack where
  "three_overlays = \<lparr>stack = [dialog_a, popover_b, dialog_c], body_overlay_open = True\<rparr>"

definition toast_A :: ToastProps where
  "toast_A = \<lparr>message = ''A'', onDismiss = Some ''onDismissA''\<rparr>"

definition toast_B :: ToastProps where
  "toast_B = \<lparr>message = ''B'', onDismiss = Some ''onDismissB''\<rparr>"

definition toast_C :: ToastProps where
  "toast_C = \<lparr>message = ''C'', onDismiss = None\<rparr>"

definition max_two :: OverlayToasterProps where
  "max_two = \<lparr>maxToasts = Some (Number 2)\<rparr>"

definition unbatched :: ReactMode where
  "unbatched = \<lparr>batched = False, strictMode = False\<rparr>"

definition in_batch :: ReactMode where
  "in_batch = \<lparr>batched = True, strictMode = False\<rparr>"

definition unbatched_strict :: ReactMode where
  "unbatched_strict = \<lparr>batched = False, strictMode = True\<rparr>"

definition two_toasts :: OverlayToaster where
  "two_toasts =
     \<lparr>toasts = [\<lparr>message = ''B'', onDismiss = Some ''onDismissB'', key = ''b''\<rparr>,
                \<lparr>message = ''A'', onDismiss = Some ''onDismissA'', key = ''a''\<rparr>],
      toastId = 0, onDismiss_calls = []\<rparr>"


section \<open>Evaluation on concrete inputs\<close>

lemmas overlay_eval =
  empty_OverlayStack_def openOverlay_def closeOverlay_def resetStack_def findIndex_def
  splice1_def slice_def same_id_def on_stack_def some_portal_backdrop_def portal_backdrop_def
  getThisOverlayAndDescendants_def dialog_a_def popover_b_def dialog_c_def three_overlays_def
  Let_def

lemmas toast_eval =
  initial_OverlayToaster_def show_toast_def dismissIfAtLimit_def truthy_maxToasts_def
  createToastOptions_def isNewToastKey_def dismiss_def clear_def has_key_def auto_key_def
  string_of_nat.simps digit_char_def toast_A_def toast_B_def toast_C_def max_two_def
  two_toasts_def Let_def length_is_maxToasts_def validateProps_def
  new_OverlayToasterInstance_def show_updater_def getStateFromUpdate_def flush_def setState_def
  dismiss_call_def dismissIfAtLimit_call_def show_call_def clear_call_def
  OverlayToaster_constructor_def unbatched_def in_batch_def unbatched_strict_def


section \<open>Array primitives\<close>

lemma findIndex_from_none:
  "(\<forall>x\<in>set xs. \<not> P x) \<Longrightarrow> findIndex_from P xs i = - 1"
  by (induction xs arbitrary: i) auto

lemma findIndex_from_some:
  "(\<exists>x\<in>set xs. P x) \<Longrightarrow>
     findIndex_from P xs i = i + int (length (takeWhile (\<lambda>x. \<not> P x) xs))"
proof (induction xs arbitrary: i)
  case Nil
  then show ?case by simp
next
  case (Cons a xs)
  show ?case
  proof (cases "P a")
    case True
    then show ?thesis by simp
  next
    case False
    with Cons.prems have "\<exists>x\<in>set xs. P x" by auto
    from Cons.IH [OF this, of "i + 1"] False show ?thesis by simp
  qed
qed

lemma findIndex_none: "(\<forall>x\<in>set xs. \<not> P x) \<Longrightarrow> findIndex P xs = - 1"
  by (simp add: findIndex_def findIndex_from_none)

lemma findIndex_some:
  "(\<exists>x\<in>set xs. P x) \<Longrightarrow> findIndex P xs = int (length (takeWhile (\<lambda>x. \<not> P x) xs))"
  by (simp add: findIndex_def findIndex_from_some)

lemma drop_length_takeWhile: "drop (length (takeWhile Q xs)) xs = dropWhile Q xs"
  by (induction xs) auto

lemma take_length_takeWhile: "take (length (takeWhile Q xs)) xs = takeWhile Q xs"
  by (induction xs) auto

lemma slice_findIndex:
  "(\<exists>x\<in>set xs. P x) \<Longrightarrow> slice xs (findIndex P xs) = dropWhile (\<lambda>x. \<not> P x) xs"
  by (simp add: findIndex_some slice_def drop_length_takeWhile)

lemma splice1_findIndex:
  "(\<exists>x\<in>set xs. P x) \<Longrightarrow>
     splice1 xs (findIndex P xs) = takeWhile (\<lambda>x. \<not> P x) xs @ tl (dropWhile (\<lambda>x. \<not> P x) xs)"
proof -
  assume "\<exists>x\<in>set xs. P x"
  then have "splice1 xs (findIndex P xs) =
      takeWhile (\<lambda>x. \<not> P x) xs @ drop (Suc (length (takeWhile (\<lambda>x. \<not> P x) xs))) xs"
    by (simp add: findIndex_some splice1_def take_length_takeWhile)
  also have "drop (Suc (length (takeWhile (\<lambda>x. \<not> P x) xs))) xs =
      tl (drop (length (takeWhile (\<lambda>x. \<not> P x) xs)) xs)"
    by (simp add: drop_Suc drop_tl)
  finally show ?thesis by (simp add: drop_length_takeWhile)
qed


section \<open>Overlay stack: lookups\<close>

text \<open>
  Claim C8. For every stack and every overlay whose id matches an entry on the stack,
  \<open>getThisOverlayAndDescendants\<close> returns exactly the suffix of the stack that starts at
  the first entry with that id (every entry before it has another id), and leaves the
  stack as it was.
\<close>

theorem getThisOverlayAndDescendants_suffix:
  assumes "on_stack st overlay"
  shows "getThisOverlayAndDescendants st overlay =
           (dropWhile (\<lambda>ov. overlay_id ov \<noteq> overlay_id overlay) (stack st), st)
         \<and> (\<exists>before this after.
               stack st = before @ this # after
             \<and> list_all (\<lambda>ov. overlay_id ov \<noteq> overlay_id overlay) before
             \<and> overlay_id this = overlay_id overlay
             \<and> fst (getThisOverlayAndDescendants st overlay) = this # after)"
proof -
  let ?Q = "\<lambda>ov. overlay_id ov \<noteq> overlay_id overlay"
  from assms have ex: "\<exists>ov\<in>set (stack st). same_id overlay ov"
    by (simp add: on_stack_def list_ex_iff)
  have nq: "(\<lambda>x. \<not> same_id overlay x) = ?Q"
    by (simp add: same_id_def fun_eq_iff)
  from ex have idx: "findIndex (same_id overlay) (stack st) \<noteq> - 1"
    by (simp add: findIndex_some)
  have res: "getThisOverlayAndDescendants st overlay = (dropWhile ?Q (stack st), st)"
    using idx slice_findIndex [OF ex] by (simp add: getThisOverlayAndDescendants_def Let_def nq)
  from ex have ne: "dropWhile ?Q (stack st) \<noteq> []"
    by (auto simp: same_id_def)
  then obtain this after where d: "dropWhile ?Q (stack st) = this # after"
    by (cases "dropWhile ?Q (stack st)") auto
  have split: "stack st = takeWhile ?Q (stack st) @ this # after"
    using d takeWhile_dropWhile_id [of ?Q "stack st"] by simp
  have this_id: "overlay_id this = overlay_id overlay"
    using d hd_dropWhile [OF ne] by simp
  have before: "list_all ?Q (takeWhile ?Q (stack st))"
    by (auto simp: list_all_iff dest: set_takeWhileD)
  from res split this_id before d show ?thesis
    by (intro conjI exI [of _ "takeWhile ?Q (stack st)"] exI [of _ this] exI [of _ after]) simp_all
qed

text \<open>Querying \<open>b\<close> on the stack \<open>[a, b, c]\<close>.\<close>

theorem getThisOverlayAndDescendants_suffix_witness:
  "on_stack three_overlays popover_b
   \<and> getThisOverlayAndDescendants three_overlays popover_b = ([popover_b, dialog_c], three_overlays)"
proof -
  have h: "on_stack three_overlays popover_b"
    by (simp add: on_stack_def same_id_def three_overlays_def dialog_a_def popover_b_def dialog_c_def)
  have d: "dropWhile (\<lambda>ov. overlay_id ov \<noteq> overlay_id popover_b) (stack three_overlays)
             = [popover_b, dialog_c]"
    by (simp add: three_overlays_def dialog_a_def popover_b_def dialog_c_def)
  from getThisOverlayAndDescendants_suffix [OF h] h d show ?thesis by simp
qed

lemma getThisOverlayAndDescendants_state:
  "snd (getThisOverlayAndDescendants st overlay) = st"
  by (simp add: getThisOverlayAndDescendants_def Let_def)

lemma not_on_stack_iff:
  "(\<not> on_stack st overlay) = (\<forall>ov\<in>set (stack st). \<not> same_id overlay ov)"
  by (simp add: on_stack_def list_ex_iff)

text \<open>
  Claim C7. For every overlay whose id matches no entry on the stack, \<open>closeOverlay\<close>
  leaves the stack unchanged and \<open>getThisOverlayAndDescendants\<close> returns the empty list.
  Both operations are total functions with no error result: neither has a path that throws.
\<close>

theorem unknown_id_no_op:
  assumes "\<not> on_stack st overlay"
  shows "stack (closeOverlay st overlay) = stack st
         \<and> getThisOverlayAndDescendants st overlay = ([], st)"
proof -
  from assms have none: "\<forall>ov\<in>set (stack st). \<not> same_id overlay ov"
    by (simp add: not_on_stack_iff)
  then have idx: "findIndex (same_id overlay) (stack st) = - 1"
    by (rule findIndex_none)
  have "stack (closeOverlay st overlay) = stack st"
    by (simp add: closeOverlay_def Let_def idx)
  moreover have "getThisOverlayAndDescendants st overlay = ([], st)"
    by (simp add: getThisOverlayAndDescendants_def Let_def idx)
  ultimately show ?thesis by simp
qed

text \<open>Closing and querying \<open>c\<close> on the stack \<open>[a, b]\<close>.\<close>

theorem unknown_id_no_op_witness:
  "\<not> on_stack \<lparr>stack = [dialog_a, popover_b], body_overlay_open = True\<rparr> dialog_c
   \<and> stack (closeOverlay \<lparr>stack = [dialog_a, popover_b], body_overlay_open = True\<rparr> dialog_c)
       = [dialog_a, popover_b]
   \<and> getThisOverlayAndDescendants \<lparr>stack = [dialog_a, popover_b], body_overlay_open = True\<rparr> dialog_c
       = ([], \<lparr>stack = [dialog_a, popover_b], body_overlay_open = True\<rparr>)"
proof -
  have h: "\<not> on_stack \<lparr>stack = [dialog_a, popover_b], body_overlay_open = True\<rparr> dialog_c"
    by (simp add: on_stack_def same_id_def dialog_a_def popover_b_def dialog_c_def)
  from unknown_id_no_op [OF h] h show ?thesis by simp
qed


section \<open>Overlay stack: the scroll lock\<close>

lemma remove_first_distinct:
  "distinct (map f xs) \<Longrightarrow>
     takeWhile (\<lambda>x. f x \<noteq> a) xs @ tl (dropWhile (\<lambda>x. f x \<noteq> a) xs) = filter (\<lambda>x. f x \<noteq> a) xs"
proof (induction xs)
  case Nil
  then show ?case by simp
next
  case (Cons x xs)
  show ?case
  proof (cases "f x = a")
    case True
    with Cons.prems have "a \<notin> f ` set xs" by simp
    then have "\<forall>y\<in>set xs. f y \<noteq> a" by blast
    then have "filter (\<lambda>x. f x \<noteq> a) xs = xs" by (simp add: filter_id_conv)
    with True show ?thesis by simp
  next
    case False
    with Cons show ?thesis by simp
  qed
qed

lemma closeOverlay_stack:
  assumes "distinct (map overlay_id (stack st))"
  shows "stack (closeOverlay st overlay) =
           filter (\<lambda>ov. overlay_id ov \<noteq> overlay_id overlay) (stack st)"
proof (cases "on_stack st overlay")
  case False
  then have none: "\<forall>ov\<in>set (stack st). \<not> same_id overlay ov"
    by (simp add: not_on_stack_iff)
  then have "filter (\<lambda>ov. overlay_id ov \<noteq> overlay_id overlay) (stack st) = stack st"
    by (simp add: filter_id_conv same_id_def)
  then show ?thesis
    by (simp add: closeOverlay_def Let_def findIndex_none [OF none])
next
  case True
  then have ex: "\<exists>ov\<in>set (stack st). same_id overlay ov"
    by (simp add: on_stack_def list_ex_iff)
  have nq: "(\<lambda>x. \<not> same_id overlay x) = (\<lambda>ov. overlay_id ov \<noteq> overlay_id overlay)"
    by (simp add: same_id_def fun_eq_iff)
  from ex have "findIndex (same_id overlay) (stack st) > - 1"
    by (simp add: findIndex_some)
  then have "stack (closeOverlay st overlay) = splice1 (stack st) (findIndex (same_id overlay) (stack st))"
    by (simp add: closeOverlay_def Let_def)
  also have "\<dots> = filter (\<lambda>ov. overlay_id ov \<noteq> overlay_id overlay) (stack st)"
    using splice1_findIndex [OF ex] remove_first_distinct [OF assms, of "overlay_id overlay"]
    by (simp add: nq)
  finally show ?thesis .
qed

lemma closeOverlay_flag:
  "body_overlay_open (closeOverlay st overlay) =
     (if filter (\<lambda>ov. portal_backdrop ov \<and> overlay_id ov \<noteq> overlay_id overlay) (stack st) = []
      then False else body_overlay_open st)"
  by (simp add: closeOverlay_def Let_def portal_backdrop_def conj_assoc)

lemma closeOverlay_inv:
  assumes "stack_inv st"
  shows "stack_inv (closeOverlay st overlay)"
proof -
  let ?Q = "\<lambda>ov. overlay_id ov \<noteq> overlay_id overlay"
  from assms have d: "distinct (map overlay_id (stack st))"
    and f: "body_overlay_open st = some_portal_backdrop (stack st)"
    by (simp_all add: stack_inv_def)
  have s: "stack (closeOverlay st overlay) = filter ?Q (stack st)"
    by (rule closeOverlay_stack [OF d])
  have d': "distinct (map overlay_id (filter ?Q (stack st)))"
    using d by (simp add: distinct_map_filter)
  have others: "filter (\<lambda>ov. portal_backdrop ov \<and> ?Q ov) (stack st) = filter portal_backdrop (filter ?Q (stack st))"
    by (simp add: conj_commute)
  have "body_overlay_open (closeOverlay st overlay) = some_portal_backdrop (filter ?Q (stack st))"
  proof (cases "filter portal_backdrop (filter ?Q (stack st)) = []")
    case True
    then have "\<not> some_portal_backdrop (filter ?Q (stack st))"
      by (auto simp: some_portal_backdrop_def list_ex_iff filter_empty_conv)
    with True show ?thesis by (simp add: closeOverlay_flag others)
  next
    case False
    then have "some_portal_backdrop (filter ?Q (stack st))"
      by (auto simp: some_portal_backdrop_def list_ex_iff filter_empty_conv)
    moreover from this have "some_portal_backdrop (stack st)"
      by (auto simp: some_portal_backdrop_def list_ex_iff)
    ultimately show ?thesis using False f by (simp add: closeOverlay_flag others)
  qed
  with s d' show ?thesis by (simp add: stack_inv_def)
qed

lemma openOverlay_inv:
  assumes "stack_inv st" and "\<not> on_stack st overlay"
  shows "stack_inv (openOverlay st overlay)"
  using assms
  by (auto simp: stack_inv_def openOverlay_def Let_def not_on_stack_iff same_id_def
        some_portal_backdrop_def portal_backdrop_def)

lemma resetStack_inv:
  assumes "stack_inv st" and "\<not> some_portal_backdrop (stack st)"
  shows "stack_inv (resetStack st)"
  using assms by (simp add: stack_inv_def resetStack_def some_portal_backdrop_def)

lemma overlay_step_inv:
  "stack_inv st \<Longrightarrow> overlay_call_ok st c \<Longrightarrow> stack_inv (overlay_step st c)"
  by (cases c) (simp_all add: openOverlay_inv closeOverlay_inv resetStack_inv)

lemma overlay_run_inv:
  "stack_inv st \<Longrightarrow> overlay_calls_ok st cs \<Longrightarrow> stack_inv (overlay_run st cs)"
  by (induction cs arbitrary: st) (simp_all add: overlay_step_inv)

lemma empty_stack_inv: "stack_inv empty_OverlayStack"
  by (simp add: stack_inv_def empty_OverlayStack_def some_portal_backdrop_def)

text \<open>
  Claim C1, amended. For every sequence of \<open>openOverlay\<close>, \<open>closeOverlay\<close> and
  \<open>resetStack\<close> calls starting from the empty stack with the scroll lock clear, in which
  \<open>openOverlay\<close> is never given an id already on the stack and \<open>resetStack\<close> is only
  called when no overlay on the stack has both \<open>usePortal\<close> and \<open>hasBackdrop\<close>, the
  scroll-lock flag is set if and only if some overlay on the stack has both.
\<close>

theorem scroll_lock_iff_portal_backdrop:
  assumes "overlay_calls_ok empty_OverlayStack cs"
  shows "body_overlay_open (overlay_run empty_OverlayStack cs)
           = some_portal_backdrop (stack (overlay_run empty_OverlayStack cs))"
  using overlay_run_inv [OF empty_stack_inv assms] by (simp add: stack_inv_def)

text \<open>Open a dialog, a popover and a second dialog, then close the first dialog: the lock stays.\<close>

theorem scroll_lock_witness:
  "overlay_calls_ok empty_OverlayStack
     [OpenOverlay dialog_a, OpenOverlay popover_b, OpenOverlay dialog_c, CloseOverlay dialog_a]
   \<and> body_overlay_open (overlay_run empty_OverlayStack
        [OpenOverlay dialog_a, OpenOverlay popover_b, OpenOverlay dialog_c, CloseOverlay dialog_a])
     = some_portal_backdrop (stack (overlay_run empty_OverlayStack
        [OpenOverlay dialog_a, OpenOverlay popover_b, OpenOverlay dialog_c, CloseOverlay dialog_a]))"
proof -
  have ok: "overlay_calls_ok empty_OverlayStack
     [OpenOverlay dialog_a, OpenOverlay popover_b, OpenOverlay dialog_c, CloseOverlay dialog_a]"
    by (simp add: overlay_eval)
  from scroll_lock_iff_portal_backdrop [OF ok] ok show ?thesis by (simp only: simp_thms)
qed

text \<open>
  Claim C1 as stated fails in two ways. \<open>resetStack\<close> empties the stack and leaves the
  body class alone: after opening a dialog with portal and backdrop and resetting, the
  flag is set over an empty stack. And \<open>closeOverlay\<close> counts the other backdrop overlays
  by id: with the same id pushed twice, closing once clears the flag while a dialog with
  portal and backdrop is still on the stack.
\<close>

theorem scroll_lock_counterexample:
  "body_overlay_open (overlay_run empty_OverlayStack [OpenOverlay dialog_a, ResetStack])
   \<and> \<not> some_portal_backdrop (stack (overlay_run empty_OverlayStack [OpenOverlay dialog_a, ResetStack]))
   \<and> \<not> body_overlay_open
         (overlay_run empty_OverlayStack [OpenOverlay dialog_a, OpenOverlay dialog_a, CloseOverlay dialog_a])
   \<and> some_portal_backdrop
         (stack (overlay_run empty_OverlayStack
                   [OpenOverlay dialog_a, OpenOverlay dialog_a, CloseOverlay dialog_a]))"
  by (simp add: overlay_eval)


section \<open>Toast queue: dismissal\<close>

lemma dismiss_calls_Nil: "dismiss_calls b [] = []"
  by (simp add: dismiss_calls_def map_filter_simps)

lemma dismiss_calls_Cons:
  "dismiss_calls b (t # ts) =
     (case onDismiss t of None \<Rightarrow> [] | Some cb \<Rightarrow> [(cb, b)]) @ dismiss_calls b ts"
  by (simp add: dismiss_calls_def map_filter_simps split: option.splits)

lemma dismiss_filter_eq:
  "dismiss_filter k b ts tr =
     (filter (\<lambda>t. key t \<noteq> k) ts, tr @ dismiss_calls b (filter (\<lambda>t. key t = k) ts))"
  by (induction ts arbitrary: tr)
     (simp_all add: dismiss_calls_Nil dismiss_calls_Cons Let_def split: option.splits)

lemma toasts_dismiss:
  "toasts (dismiss st k te) = filter (\<lambda>t. key t \<noteq> k) (toasts st)"
  by (simp add: dismiss_def dismiss_filter_eq)

lemma calls_dismiss:
  "onDismiss_calls (dismiss st k te) =
     onDismiss_calls st @
       dismiss_calls (case te of None \<Rightarrow> False | Some b \<Rightarrow> b) (filter (\<lambda>t. key t = k) (toasts st))"
  by (simp add: dismiss_def dismiss_filter_eq)

lemma toastId_dismiss: "toastId (dismiss st k te) = toastId st"
  by (simp add: dismiss_def dismiss_filter_eq)

lemma has_key_iff: "has_key k ts = (k \<in> key ` set ts)"
  by (auto simp: has_key_def list_ex_iff)

text \<open>
  Claim C9. For every key not present in the toast list, \<open>dismiss\<close> leaves the toast list
  unchanged and invokes no callback (the whole state is unchanged).
\<close>

theorem dismiss_absent_key:
  assumes "\<not> has_key k (toasts st)"
  shows "toasts (dismiss st k te) = toasts st
       \<and> onDismiss_calls (dismiss st k te) = onDismiss_calls st
       \<and> dismiss st k te = st"
proof -
  from assms have all: "\<forall>t\<in>set (toasts st). key t \<noteq> k"
    by (auto simp: has_key_iff)
  then have keep: "filter (\<lambda>t. key t \<noteq> k) (toasts st) = toasts st"
    by (simp add: filter_id_conv)
  from all have none: "filter (\<lambda>t. key t = k) (toasts st) = []"
    by (simp add: filter_empty_conv)
  show ?thesis
    by (simp add: dismiss_def dismiss_filter_eq keep none dismiss_calls_Nil)
qed

text \<open>Dismissing \<open>z\<close> from the list \<open>[b, a]\<close>.\<close>

theorem dismiss_absent_key_witness:
  "\<not> has_key ''z'' (toasts two_toasts)
   \<and> toasts (dismiss two_toasts ''z'' (Some True)) = toasts two_toasts
   \<and> onDismiss_calls (dismiss two_toasts ''z'' (Some True)) = []"
proof -
  have h: "\<not> has_key ''z'' (toasts two_toasts)"
    by (simp add: has_key_def two_toasts_def)
  have c: "onDismiss_calls two_toasts = []"
    by (simp add: two_toasts_def)
  from dismiss_absent_key [OF h, of "Some True"] h c show ?thesis by simp
qed



section \<open>Toast queue: \<open>show\<close> with every update applied at once\<close>

lemma js_lt_not_strict_eq: "js_lt a b \<Longrightarrow> \<not> js_strict_eq a b"
  by (cases a; cases b) auto

lemma limit_step:
  "(if truthy_maxToasts p then dismissIfAtLimit p st else Inr st) =
     Inr (if truthy_maxToasts p \<and> length_is_maxToasts p st
          then dismiss st (key (last (toasts st))) None else st)"
proof (cases "toasts st")
  case Nil
  have "\<not> (truthy_maxToasts p \<and> length_is_maxToasts p st)"
  proof (cases "maxToasts p")
    case None
    then show ?thesis by (simp add: truthy_maxToasts_def)
  next
    case (Some n)
    with Nil show ?thesis
      by (cases n) (auto simp: truthy_maxToasts_def length_is_maxToasts_def)
  qed
  with Nil show ?thesis by (auto simp: dismissIfAtLimit_def)
next
  case (Cons t ts)
  then show ?thesis by (simp add: dismissIfAtLimit_def)
qed

lemma show_toast_total: "\<exists>r. show_toast p st tp k = Inr r"
  by (simp add: show_toast_def limit_step Let_def split: prod.splits)

lemma dismiss_last_shorter:
  assumes "toasts st \<noteq> []"
  shows "length (toasts (dismiss st (key (last (toasts st))) te)) < length (toasts st)"
  unfolding toasts_dismiss
  by (rule length_filter_less [of "last (toasts st)"]) (simp_all add: assms)

lemma show_toast_below:
  assumes "\<not> (truthy_maxToasts p \<and> length_is_maxToasts p st)"
  shows "show_toast p st tp (Some k) =
           Inr (k, st\<lparr>toasts :=
                  (if has_key k (toasts st)
                   then map (\<lambda>t. if key t = k
                                   then \<lparr>message = message tp, onDismiss = onDismiss tp, key = k\<rparr>
                                   else t) (toasts st)
                   else \<lparr>message = message tp, onDismiss = onDismiss tp, key = k\<rparr> # toasts st)\<rparr>)"
    and "show_toast p st tp None =
           Inr (auto_key (toastId st),
                st\<lparr>toastId := toastId st + 1,
                   toasts := \<lparr>message = message tp, onDismiss = onDismiss tp,
                              key = auto_key (toastId st)\<rparr> # toasts st\<rparr>)"
  using assms
  by (auto simp: show_toast_def limit_step createToastOptions_def isNewToastKey_def Let_def
        has_key_def list_ex_iff list_all_iff)

lemma show_toast_via_limit:
  "show_toast p st tp k =
     show_toast (p\<lparr>maxToasts := None\<rparr>)
       (if truthy_maxToasts p \<and> length_is_maxToasts p st
        then dismiss st (key (last (toasts st))) None else st) tp k"
  unfolding show_toast_def limit_step by (auto simp: truthy_maxToasts_def)

lemma no_limit:
  "\<not> (truthy_maxToasts (p\<lparr>maxToasts := None\<rparr>) \<and> length_is_maxToasts (p\<lparr>maxToasts := None\<rparr>) st)"
  by (simp add: truthy_maxToasts_def)

text \<open>
  Claim C10. For every toast list strictly below the configured maximum and every key
  \<open>k\<close> present in it, \<open>show(props, k)\<close> returns \<open>k\<close> and replaces in place: the list
  length is unchanged, each position that held key \<open>k\<close> holds the new toast, every other
  position holds what it held, and neither the callback trace nor the counter changes.
  The maximum is any number the length is less than, an infinity included.
\<close>

theorem show_existing_key_in_place:
  assumes "maxToasts p = Some N"
    and "js_lt (Number (of_nat (length (toasts st)))) N"
    and "has_key k (toasts st)"
  shows "\<exists>st'. show_toast p st tp (Some k) = Inr (k, st')
       \<and> length (toasts st') = length (toasts st)
       \<and> (\<forall>i < length (toasts st).
            toasts st' ! i =
              (if key (toasts st ! i) = k
               then \<lparr>message = message tp, onDismiss = onDismiss tp, key = k\<rparr>
               else toasts st ! i))
       \<and> onDismiss_calls st' = onDismiss_calls st
       \<and> toastId st' = toastId st"
proof -
  from assms(1,2) have nl: "\<not> (truthy_maxToasts p \<and> length_is_maxToasts p st)"
    by (simp add: length_is_maxToasts_def js_lt_not_strict_eq)
  show ?thesis
    using assms(3) by (simp add: show_toast_below(1) [OF nl])
qed

text \<open>Maximum 3, list \<open>[b, a]\<close>, \<open>show(C, a)\<close>.\<close>

theorem show_existing_key_in_place_witness:
  "maxToasts \<lparr>maxToasts = Some (Number 3)\<rparr> = Some (Number 3)
   \<and> js_lt (Number (of_nat (length (toasts two_toasts)))) (Number 3)
   \<and> has_key ''a'' (toasts two_toasts)
   \<and> (\<exists>st'. show_toast \<lparr>maxToasts = Some (Number 3)\<rparr> two_toasts toast_C (Some ''a'') = Inr (''a'', st')
         \<and> length (toasts st') = 2
         \<and> toasts st' ! 0 = \<lparr>message = ''B'', onDismiss = Some ''onDismissB'', key = ''b''\<rparr>
         \<and> toasts st' ! 1 = \<lparr>message = ''C'', onDismiss = None, key = ''a''\<rparr>)"
proof -
  have h1: "maxToasts \<lparr>maxToasts = Some (Number 3)\<rparr> = Some (Number 3)" by simp
  have h2: "js_lt (Number (of_nat (length (toasts two_toasts)))) (Number 3)"
    by (simp add: two_toasts_def)
  have h3: "has_key ''a'' (toasts two_toasts)" by (simp add: has_key_def two_toasts_def)
  from show_existing_key_in_place [OF h1 h2 h3, of toast_C]
  obtain st' where
    r: "show_toast \<lparr>maxToasts = Some (Number 3)\<rparr> two_toasts toast_C (Some ''a'') = Inr (''a'', st')"
    and len: "length (toasts st') = length (toasts two_toasts)"
    and nth: "\<forall>i < length (toasts two_toasts).
            toasts st' ! i =
              (if key (toasts two_toasts ! i) = ''a''
               then \<lparr>message = message toast_C, onDismiss = onDismiss toast_C, key = ''a''\<rparr>
               else toasts two_toasts ! i)"
    by blast
  from len have l2: "length (toasts st') = 2" by (simp add: two_toasts_def)
  from nth have n0: "toasts st' ! 0 = \<lparr>message = ''B'', onDismiss = Some ''onDismissB'', key = ''b''\<rparr>"
    by (simp add: two_toasts_def)
  from nth have n1: "toasts st' ! 1 = \<lparr>message = ''C'', onDismiss = None, key = ''a''\<rparr>"
    by (simp add: two_toasts_def toast_C_def)
  from r l2 n0 n1 h1 h2 h3 show ?thesis by blast
qed


section \<open>Toast queue: the methods over the update queue\<close>

lemma getStateFromUpdate_show:
  "getStateFromUpdate strict this (ShowUpdate options k) st = show_updater this options k st"
  by (simp add: getStateFromUpdate_def show_updater_def)

lemma getStateFromUpdate_clear:
  "getStateFromUpdate strict this ClearUpdate st = st\<lparr>toasts := []\<rparr>"
  by (simp add: getStateFromUpdate_def)

lemma getStateFromUpdate_dismiss:
  "toasts (getStateFromUpdate strict this (DismissUpdate k b) st) =
     filter (\<lambda>t. key t \<noteq> k) (toasts st)"
  "toastId (getStateFromUpdate strict this (DismissUpdate k b) st) = toastId st"
  "onDismiss_calls (getStateFromUpdate strict this (DismissUpdate k b) st) =
     (if strict
      then onDismiss_calls st @ dismiss_calls b (filter (\<lambda>t. key t = k) (toasts st))
             @ dismiss_calls b (filter (\<lambda>t. key t = k) (toasts st))
      else onDismiss_calls st @ dismiss_calls b (filter (\<lambda>t. key t = k) (toasts st)))"
  by (simp_all add: getStateFromUpdate_def toasts_dismiss toastId_dismiss calls_dismiss)

lemma setState_unbatched:
  "\<not> batched m \<Longrightarrow> updateQueue i = [] \<Longrightarrow>
     setState m u i =
       \<lparr>current = getStateFromUpdate (strictMode m) (current i) u (current i), updateQueue = []\<rparr>"
  by (simp add: setState_def flush_def)

lemma flush_settled: "updateQueue i = [] \<Longrightarrow> flush m i = i"
  by (cases i) (simp add: flush_def)

lemma dismiss_call_unbatched:
  assumes "\<not> batched m" and "updateQueue i = []"
  shows "updateQueue (dismiss_call m i k te) = []"
    and "toasts (current (dismiss_call m i k te)) = filter (\<lambda>t. key t \<noteq> k) (toasts (current i))"
    and "toastId (current (dismiss_call m i k te)) = toastId (current i)"
  by (simp_all add: dismiss_call_def setState_unbatched [OF assms] getStateFromUpdate_dismiss)

lemma clear_call_unbatched:
  assumes "\<not> batched m" and "updateQueue i = []"
  shows "updateQueue (clear_call m i) = []" and "toasts (current (clear_call m i)) = []"
  using assms by (simp_all add: clear_call_def setState_unbatched getStateFromUpdate_clear)

lemma limit_step_call:
  "(if truthy_maxToasts p then dismissIfAtLimit_call p m i else Inr i) =
     Inr (if truthy_maxToasts p \<and> length_is_maxToasts p (current i)
          then dismiss_call m i (key (last (toasts (current i)))) None else i)"
proof (cases "toasts (current i)")
  case Nil
  have "\<not> (truthy_maxToasts p \<and> length_is_maxToasts p (current i))"
  proof (cases "maxToasts p")
    case None
    then show ?thesis by (simp add: truthy_maxToasts_def)
  next
    case (Some n)
    with Nil show ?thesis
      by (cases n) (auto simp: truthy_maxToasts_def length_is_maxToasts_def)
  qed
  with Nil show ?thesis by (auto simp: dismissIfAtLimit_call_def)
next
  case (Cons t ts)
  then show ?thesis by (simp add: dismissIfAtLimit_call_def)
qed

lemma show_call_total: "\<exists>r. show_call p m i tp k = Inr r"
  by (simp add: show_call_def limit_step_call Let_def split: prod.splits)

lemma toast_step_total: "\<exists>i'. toast_step p m i c = Inr i'"
proof (cases c)
  case (Show tp k)
  obtain r where "show_call p m i tp k = Inr r" using show_call_total by blast
  with Show show ?thesis by (cases r) simp
qed simp_all

text \<open>
  Outside a batch, with nothing pending, \<open>show\<close> is \<open>show\<close> without a limit on the state
  the limit check leaves: the list without the toasts that hold the key of the last one
  when the list is full, the list itself otherwise.
\<close>

lemma show_call_unbatched:
  assumes "\<not> batched m" and "updateQueue i = []"
  shows "\<exists>st1. toasts st1 =
             (if truthy_maxToasts p \<and> length_is_maxToasts p (current i)
              then filter (\<lambda>t. key t \<noteq> key (last (toasts (current i)))) (toasts (current i))
              else toasts (current i))
         \<and> toastId st1 = toastId (current i)
         \<and> show_call p m i tp k =
             (case show_toast (p\<lparr>maxToasts := None\<rparr>) st1 tp k of
                Inl e \<Rightarrow> Inl e
              | Inr (k', st') \<Rightarrow> Inr (k', \<lparr>current = st', updateQueue = []\<rparr>))"
proof -
  define i1 where "i1 = (if truthy_maxToasts p \<and> length_is_maxToasts p (current i)
          then dismiss_call m i (key (last (toasts (current i)))) None else i)"
  have q1: "updateQueue i1 = []"
    by (simp add: i1_def assms dismiss_call_unbatched(1) [OF assms])
  have t1: "toasts (current i1) =
             (if truthy_maxToasts p \<and> length_is_maxToasts p (current i)
              then filter (\<lambda>t. key t \<noteq> key (last (toasts (current i)))) (toasts (current i))
              else toasts (current i))"
    by (simp add: i1_def dismiss_call_unbatched(2) [OF assms])
  have id1: "toastId (current i1) = toastId (current i)"
    by (simp add: i1_def dismiss_call_unbatched(3) [OF assms])
  have lim: "(if truthy_maxToasts p then dismissIfAtLimit_call p m i else Inr i) = Inr i1"
    unfolding limit_step_call i1_def ..
  have q2: "\<And>st2. updateQueue (i1\<lparr>current := st2\<rparr>) = []"
    by (simp add: q1)
  have call: "show_call p m i tp k =
      (case show_toast (p\<lparr>maxToasts := None\<rparr>) (current i1) tp k of
         Inl e \<Rightarrow> Inl e
       | Inr (k', st') \<Rightarrow> Inr (k', \<lparr>current = st', updateQueue = []\<rparr>))"
    unfolding show_call_def lim
    by (cases k)
       (simp_all add: setState_unbatched [OF assms(1) q2] getStateFromUpdate_show
          show_toast_below [OF no_limit] createToastOptions_def show_updater_def
          isNewToastKey_def has_key_def list_ex_iff list_all_iff)
  from t1 id1 call show ?thesis by blast
qed

text \<open>
  Outside a batch and outside \<open>StrictMode\<close>, on a component with nothing pending, each
  method is the function of the same name above.
\<close>

lemma dismiss_call_is_dismiss:
  assumes "\<not> batched m" and "\<not> strictMode m" and "updateQueue i = []"
  shows "dismiss_call m i k te = \<lparr>current = dismiss (current i) k te, updateQueue = []\<rparr>"
  using assms(2)
  by (simp add: dismiss_call_def setState_unbatched [OF assms(1,3)] getStateFromUpdate_def dismiss_def)

lemma clear_call_is_clear:
  assumes "\<not> batched m" and "updateQueue i = []"
  shows "clear_call m i = \<lparr>current = clear (current i), updateQueue = []\<rparr>"
  using assms
  by (simp add: clear_call_def setState_unbatched getStateFromUpdate_clear clear_def)

lemma show_call_is_show_toast:
  assumes "\<not> batched m" and "\<not> strictMode m" and "updateQueue i = []"
  shows "show_call p m i tp k =
           (case show_toast p (current i) tp k of
              Inl e \<Rightarrow> Inl e
            | Inr (k', st') \<Rightarrow> Inr (k', \<lparr>current = st', updateQueue = []\<rparr>))"
proof -
  define i1 where "i1 = (if truthy_maxToasts p \<and> length_is_maxToasts p (current i)
          then dismiss_call m i (key (last (toasts (current i)))) None else i)"
  have c1: "current i1 = (if truthy_maxToasts p \<and> length_is_maxToasts p (current i)
          then dismiss (current i) (key (last (toasts (current i)))) None else current i)"
    by (simp add: i1_def dismiss_call_is_dismiss [OF assms])
  have q1: "updateQueue i1 = []"
    by (simp add: i1_def assms dismiss_call_unbatched(1) [OF assms(1,3)])
  have lim: "(if truthy_maxToasts p then dismissIfAtLimit_call p m i else Inr i) = Inr i1"
    unfolding limit_step_call i1_def ..
  have q2: "\<And>st2. updateQueue (i1\<lparr>current := st2\<rparr>) = []"
    by (simp add: q1)
  have "show_call p m i tp k =
      (case show_toast (p\<lparr>maxToasts := None\<rparr>) (current i1) tp k of
         Inl e \<Rightarrow> Inl e
       | Inr (k', st') \<Rightarrow> Inr (k', \<lparr>current = st', updateQueue = []\<rparr>))"
    unfolding show_call_def lim
    by (cases k)
       (simp_all add: setState_unbatched [OF assms(1) q2] getStateFromUpdate_show
          show_toast_below [OF no_limit] createToastOptions_def show_updater_def
          isNewToastKey_def has_key_def list_ex_iff list_all_iff)
  then show ?thesis
    unfolding c1 by (simp add: show_toast_via_limit [of p "current i"])
qed

section \<open>Toast queue: what the update queue changes\<close>

text \<open>
  The updater of \<open>dismiss\<close> run once, on a list that holds a toast \<open>t\<close> with key \<open>k\<close>: every
  toast with key \<open>k\<close> is removed, the others are kept in order, and the callback of each
  removed toast is invoked once, in list order, with the given flag.
\<close>

lemma dismiss_present_key:
  assumes "t \<in> set (toasts st)" and "key t = k"
  shows "toasts (dismiss st k (Some timeoutExpired)) = filter (\<lambda>u. key u \<noteq> k) (toasts st)
       \<and> \<not> has_key k (toasts (dismiss st k (Some timeoutExpired)))
       \<and> onDismiss_calls (dismiss st k (Some timeoutExpired)) =
           onDismiss_calls st @ dismiss_calls timeoutExpired (filter (\<lambda>u. key u = k) (toasts st))
       \<and> (filter (\<lambda>u. key u = k) (toasts st) = [t] \<longrightarrow>
            onDismiss_calls (dismiss st k (Some timeoutExpired)) =
              onDismiss_calls st @
                (case onDismiss t of None \<Rightarrow> [] | Some cb \<Rightarrow> [(cb, timeoutExpired)]))"
  by (auto simp: toasts_dismiss calls_dismiss has_key_iff dismiss_calls_Cons dismiss_calls_Nil)

text \<open>
  Under \<open>StrictMode\<close> the same call, outside a batch on a component with nothing pending,
  removes the same toasts and appends the same invocations twice.
\<close>

lemma dismiss_call_strictMode:
  assumes "\<not> batched m" and "strictMode m" and "updateQueue i = []"
  shows "toasts (current (dismiss_call m i k (Some timeoutExpired))) =
           filter (\<lambda>u. key u \<noteq> k) (toasts (current i))
       \<and> onDismiss_calls (current (dismiss_call m i k (Some timeoutExpired))) =
           onDismiss_calls (current i)
             @ dismiss_calls timeoutExpired (filter (\<lambda>u. key u = k) (toasts (current i)))
             @ dismiss_calls timeoutExpired (filter (\<lambda>u. key u = k) (toasts (current i)))"
  using assms(2)
  by (simp add: dismiss_call_def setState_unbatched [OF assms(1,3)] getStateFromUpdate_dismiss)

text \<open>
  Claim C5, on the code: \<open>dismiss\<close> invokes \<open>onDismiss\<close> inside the updater it hands to
  \<open>setState\<close>, and React runs an updater twice under \<open>StrictMode\<close>. With the list
  \<open>[b, a]\<close>, \<^verbatim>\<open>dismiss("a", true)\<close> removes the toast and invokes its callback twice with
  \<open>true\<close>; outside \<open>StrictMode\<close> it invokes it once. \<open>clear\<close>, which invokes the callbacks
  before it calls \<open>setState\<close>, invokes each once under \<open>StrictMode\<close> too.
\<close>

theorem dismiss_strictMode_invokes_twice:
  "dismiss_call unbatched_strict \<lparr>current = two_toasts, updateQueue = []\<rparr> ''a'' (Some True) =
     \<lparr>current =
        \<lparr>toasts = [\<lparr>message = ''B'', onDismiss = Some ''onDismissB'', key = ''b''\<rparr>],
         toastId = 0,
         onDismiss_calls = [(''onDismissA'', True), (''onDismissA'', True)]\<rparr>,
      updateQueue = []\<rparr>
   \<and> dismiss_call unbatched \<lparr>current = two_toasts, updateQueue = []\<rparr> ''a'' (Some True) =
     \<lparr>current =
        \<lparr>toasts = [\<lparr>message = ''B'', onDismiss = Some ''onDismissB'', key = ''b''\<rparr>],
         toastId = 0,
         onDismiss_calls = [(''onDismissA'', True)]\<rparr>,
      updateQueue = []\<rparr>
   \<and> clear_call unbatched_strict \<lparr>current = two_toasts, updateQueue = []\<rparr> =
     \<lparr>current =
        \<lparr>toasts = [], toastId = 0,
         onDismiss_calls = [(''onDismissB'', False), (''onDismissA'', False)]\<rparr>,
      updateQueue = []\<rparr>"
  by (simp add: toast_eval)

text \<open>
  Claim C4, on the code: \<open>dismissIfAtLimit\<close> compares \<open>this.state.toasts.length\<close>, the
  length as of the last render, with the maximum. With maximum 2 and an empty list, the
  calls \<^verbatim>\<open>show(A, "a")\<close>, \<^verbatim>\<open>show(B, "b")\<close>, \<^verbatim>\<open>show(C, "c")\<close> made in one batch all see
  length 0: when React processes the queue the list is \<open>[C, B, A]\<close> and no callback has
  been invoked. Made outside a batch, the same calls leave \<open>[C, B]\<close> and invoke A's
  callback with \<open>false\<close>.
\<close>

theorem show_three_in_one_batch:
  "toast_run max_two in_batch new_OverlayToasterInstance
     [Show toast_A (Some ''a''), Show toast_B (Some ''b''), Show toast_C (Some ''c''), Flush] =
     Inr \<lparr>current =
            \<lparr>toasts = [\<lparr>message = ''C'', onDismiss = None, key = ''c''\<rparr>,
                       \<lparr>message = ''B'', onDismiss = Some ''onDismissB'', key = ''b''\<rparr>,
                       \<lparr>message = ''A'', onDismiss = Some ''onDismissA'', key = ''a''\<rparr>],
             toastId = 0, onDismiss_calls = []\<rparr>,
          updateQueue = []\<rparr>
   \<and> toast_run max_two unbatched new_OverlayToasterInstance
     [Show toast_A (Some ''a''), Show toast_B (Some ''b''), Show toast_C (Some ''c'')] =
     Inr \<lparr>current =
            \<lparr>toasts = [\<lparr>message = ''C'', onDismiss = None, key = ''c''\<rparr>,
                       \<lparr>message = ''B'', onDismiss = Some ''onDismissB'', key = ''b''\<rparr>],
             toastId = 0, onDismiss_calls = [(''onDismissA'', False)]\<rparr>,
          updateQueue = []\<rparr>"
  by (simp add: toast_eval)

text \<open>
  Claim C3, on the code: the same stale read lets the list exceed the maximum. With
  maximum 2, three un-keyed \<open>show\<close> calls in one batch leave three toasts and evict none.
  And a maximum that is not a whole number passes \<open>validateProps\<close> and is never
  \<^verbatim>\<open>===\<close> a length: with maximum 1.5, two \<open>show\<close> calls outside a batch leave two toasts.
\<close>

theorem maxToasts_exceeded:
  "toast_run max_two in_batch new_OverlayToasterInstance
     [Show toast_A None, Show toast_B None, Show toast_C None, Flush] =
     Inr \<lparr>current =
            \<lparr>toasts = [\<lparr>message = ''C'', onDismiss = None, key = ''toast-2''\<rparr>,
                       \<lparr>message = ''B'', onDismiss = Some ''onDismissB'', key = ''toast-1''\<rparr>,
                       \<lparr>message = ''A'', onDismiss = Some ''onDismissA'', key = ''toast-0''\<rparr>],
             toastId = 3, onDismiss_calls = []\<rparr>,
          updateQueue = []\<rparr>
   \<and> validateProps \<lparr>maxToasts = Some (Number (3 / 2))\<rparr> = Inr ()
   \<and> toast_run \<lparr>maxToasts = Some (Number (3 / 2))\<rparr> unbatched new_OverlayToasterInstance
     [Show toast_A None, Show toast_B None] =
     Inr \<lparr>current =
            \<lparr>toasts = [\<lparr>message = ''B'', onDismiss = Some ''onDismissB'', key = ''toast-1''\<rparr>,
                       \<lparr>message = ''A'', onDismiss = Some ''onDismissA'', key = ''toast-0''\<rparr>],
             toastId = 2, onDismiss_calls = []\<rparr>,
          updateQueue = []\<rparr>"
  by (simp add: toast_eval)


text \<open>
  Where the limit does hold: outside a batch, with a whole-number maximum \<open>N \<ge> 1\<close>, every
  sequence of calls returns and leaves at most \<open>N\<close> toasts, with or without \<open>StrictMode\<close>.
\<close>

lemma show_call_length:
  assumes "\<not> batched m" and "updateQueue i = []"
    and "maxToasts p = Some (Number (of_nat N))" and "1 \<le> N"
    and "length (toasts (current i)) \<le> N"
    and "show_call p m i tp k = Inr (k', i')"
  shows "updateQueue i' = [] \<and> length (toasts (current i')) \<le> N"
proof -
  from show_call_unbatched [OF assms(1,2), of p tp k] obtain st1 where
    t1: "toasts st1 =
             (if truthy_maxToasts p \<and> length_is_maxToasts p (current i)
              then filter (\<lambda>t. key t \<noteq> key (last (toasts (current i)))) (toasts (current i))
              else toasts (current i))"
    and call: "show_call p m i tp k =
             (case show_toast (p\<lparr>maxToasts := None\<rparr>) st1 tp k of
                Inl e \<Rightarrow> Inl e
              | Inr (k', st') \<Rightarrow> Inr (k', \<lparr>current = st', updateQueue = []\<rparr>))"
    by blast
  from assms(3,4) have truthy: "truthy_maxToasts p"
    by (simp add: truthy_maxToasts_def)
  from assms(3) have at: "length_is_maxToasts p (current i) = (length (toasts (current i)) = N)"
    by (simp add: length_is_maxToasts_def)
  have short: "length (toasts st1) < N"
  proof (cases "length (toasts (current i)) = N")
    case True
    with assms(4) have ne: "toasts (current i) \<noteq> []" by auto
    have "length (filter (\<lambda>t. key t \<noteq> key (last (toasts (current i)))) (toasts (current i)))
            < length (toasts (current i))"
      by (rule length_filter_less [of "last (toasts (current i))"]) (simp_all add: ne)
    with True truthy at show ?thesis by (simp add: t1)
  next
    case False
    with assms(5) truthy at show ?thesis by (simp add: t1)
  qed
  obtain r where r: "show_toast (p\<lparr>maxToasts := None\<rparr>) st1 tp k = Inr r"
    using show_toast_total by blast
  obtain k2 st' where r2: "r = (k2, st')" by (cases r)
  from call r r2 assms(6) have i': "i' = \<lparr>current = st', updateQueue = []\<rparr>"
    by simp
  from r r2 have "length (toasts st') \<le> Suc (length (toasts st1))"
    by (cases k) (auto simp: show_toast_below [OF no_limit] split: if_splits)
  with short i' show ?thesis by simp
qed

lemma toast_run_bounded_unbatched:
  assumes "\<not> batched m" and "maxToasts p = Some (Number (of_nat N))" and "1 \<le> N"
  shows "updateQueue i = [] \<Longrightarrow> length (toasts (current i)) \<le> N \<Longrightarrow>
         \<exists>i'. toast_run p m i cs = Inr i' \<and> length (toasts (current i')) \<le> N"
proof (induction cs arbitrary: i)
  case Nil
  then show ?case by simp
next
  case (Cons c cs)
  obtain i1 where s: "toast_step p m i c = Inr i1" using toast_step_total by blast
  have inv1: "updateQueue i1 = [] \<and> length (toasts (current i1)) \<le> N"
  proof (cases c)
    case (Show tp k)
    with s obtain k' where sh: "show_call p m i tp k = Inr (k', i1)"
      by (auto split: sum.splits)
    from show_call_length [OF assms(1) Cons.prems(1) assms(2,3) Cons.prems(2) sh] show ?thesis .
  next
    case (Dismiss k te)
    with s have i1: "i1 = dismiss_call m i k te" by simp
    have "length (filter (\<lambda>t. key t \<noteq> k) (toasts (current i))) \<le> length (toasts (current i))"
      by (rule length_filter_le)
    with Cons.prems(2) have "length (filter (\<lambda>t. key t \<noteq> k) (toasts (current i))) \<le> N"
      by linarith
    with i1 show ?thesis
      by (simp add: dismiss_call_unbatched [OF assms(1) Cons.prems(1)])
  next
    case Clear
    with s have "i1 = clear_call m i" by simp
    then show ?thesis
      by (simp add: clear_call_unbatched [OF assms(1) Cons.prems(1)])
  next
    case Flush
    with s have "i1 = i" by (simp add: flush_settled [OF Cons.prems(1)])
    with Cons.prems show ?thesis by simp
  qed
  from Cons.IH [OF conjunct1 [OF inv1] conjunct2 [OF inv1]] s show ?case by simp
qed


section \<open>Toast queue: construction\<close>

text \<open>
  Claim C6. Construction fails with \<open>TOASTER_MAX_TOASTS_INVALID\<close> exactly when
  \<open>maxToasts\<close> is defined and less than 1, and yields the component with an empty list
  exactly when \<open>maxToasts\<close> is undefined or not less than 1; in particular it is
  accepted when \<open>maxToasts\<close> is undefined or at least 1. (\<open>NaN\<close> is neither less than 1 nor
  at least 1, and is accepted.)
\<close>

theorem constructor_validates_maxToasts:
  "(OverlayToaster_constructor p = Inl TOASTER_MAX_TOASTS_INVALID)
     = (\<exists>n. maxToasts p = Some n \<and> js_lt n (Number 1))
   \<and> (OverlayToaster_constructor p = Inr new_OverlayToasterInstance)
     = (maxToasts p = None \<or> (\<exists>n. maxToasts p = Some n \<and> \<not> js_lt n (Number 1)))
   \<and> (maxToasts p = None \<or> (\<exists>n. maxToasts p = Some n \<and> js_ge n (Number 1))
        \<longrightarrow> OverlayToaster_constructor p = Inr new_OverlayToasterInstance)"
  by (auto simp: OverlayToaster_constructor_def validateProps_def js_ge_def split: option.splits)

text \<open>Maximum 1.5 is accepted; maximum 0.5 and maximum 0 are rejected.\<close>

theorem constructor_validates_maxToasts_witness:
  "js_ge (Number (3 / 2)) (Number 1)
   \<and> OverlayToaster_constructor \<lparr>maxToasts = Some (Number (3 / 2))\<rparr> = Inr new_OverlayToasterInstance
   \<and> OverlayToaster_constructor \<lparr>maxToasts = Some (Number (1 / 2))\<rparr> = Inl TOASTER_MAX_TOASTS_INVALID
   \<and> OverlayToaster_constructor \<lparr>maxToasts = Some (Number 0)\<rparr> = Inl TOASTER_MAX_TOASTS_INVALID"
proof -
  have h: "js_ge (Number (3 / 2)) (Number 1)" by (simp add: js_ge_def)
  then have h': "maxToasts \<lparr>maxToasts = Some (Number (3 / 2))\<rparr> = None
      \<or> (\<exists>n. maxToasts \<lparr>maxToasts = Some (Number (3 / 2))\<rparr> = Some n \<and> js_ge n (Number 1))"
    by simp
  have l1: "\<exists>n. maxToasts \<lparr>maxToasts = Some (Number (1 / 2))\<rparr> = Some n \<and> js_lt n (Number 1)"
    by simp
  have l2: "\<exists>n. maxToasts \<lparr>maxToasts = Some (Number 0)\<rparr> = Some n \<and> js_lt n (Number 1)"
    by simp
  from constructor_validates_maxToasts [of "\<lparr>maxToasts = Some (Number (3 / 2))\<rparr>"] h'
  have a: "OverlayToaster_constructor \<lparr>maxToasts = Some (Number (3 / 2))\<rparr> = Inr new_OverlayToasterInstance"
    by blast
  from constructor_validates_maxToasts [of "\<lparr>maxToasts = Some (Number (1 / 2))\<rparr>"] l1
  have b: "OverlayToaster_constructor \<lparr>maxToasts = Some (Number (1 / 2))\<rparr> = Inl TOASTER_MAX_TOASTS_INVALID"
    by blast
  from constructor_validates_maxToasts [of "\<lparr>maxToasts = Some (Number 0)\<rparr>"] l2
  have c: "OverlayToaster_constructor \<lparr>maxToasts = Some (Number 0)\<rparr> = Inl TOASTER_MAX_TOASTS_INVALID"
    by blast
  from h a b c show ?thesis by simp
qed


section \<open>Unique ids and keys\<close>

lemma closeOverlay_distinct:
  "distinct (map overlay_id (stack st)) \<Longrightarrow> distinct (map overlay_id (stack (closeOverlay st overlay)))"
  by (simp add: closeOverlay_stack distinct_map_filter)

lemma openOverlay_distinct:
  "distinct (map overlay_id (stack st)) \<Longrightarrow> \<not> on_stack st overlay \<Longrightarrow>
     distinct (map overlay_id (stack (openOverlay st overlay)))"
  by (auto simp: openOverlay_def Let_def not_on_stack_iff same_id_def)

lemma overlay_run_distinct:
  "distinct (map overlay_id (stack st)) \<Longrightarrow> overlay_opens_fresh st cs \<Longrightarrow>
     distinct (map overlay_id (stack (overlay_run st cs)))"
proof (induction cs arbitrary: st)
  case Nil
  then show ?case by simp
next
  case (Cons c cs)
  show ?case
  proof (cases c)
    case (OpenOverlay ov)
    with Cons.prems have "distinct (map overlay_id (stack (openOverlay st ov)))"
      and "overlay_opens_fresh (openOverlay st ov) cs"
      by (simp_all add: openOverlay_distinct)
    from Cons.IH [OF this] OpenOverlay show ?thesis by simp
  next
    case (CloseOverlay ov)
    with Cons.prems have "distinct (map overlay_id (stack (closeOverlay st ov)))"
      and "overlay_opens_fresh (closeOverlay st ov) cs"
      by (simp_all add: closeOverlay_distinct)
    from Cons.IH [OF this] CloseOverlay show ?thesis by simp
  next
    case ResetStack
    with Cons.prems have "distinct (map overlay_id (stack (resetStack st)))"
      and "overlay_opens_fresh (resetStack st) cs"
      by (simp_all add: resetStack_def)
    from Cons.IH [OF this] ResetStack show ?thesis by simp
  qed
qed

lemma show_nolimit_distinct:
  assumes "show_toast (p\<lparr>maxToasts := None\<rparr>) st1 tp k = Inr (k', st')"
    and "distinct (map key (toasts st1))"
    and "k = None \<Longrightarrow> \<not> has_key (auto_key (toastId st1)) (toasts st1)"
  shows "distinct (map key (toasts st'))"
proof (cases k)
  case None
  with assms(3) have fresh: "auto_key (toastId st1) \<notin> key ` set (toasts st1)"
    unfolding has_key_iff by blast
  from assms(1) None have "toasts st' =
      \<lparr>message = message tp, onDismiss = onDismiss tp, key = auto_key (toastId st1)\<rparr> # toasts st1"
    by (auto simp: show_toast_below(2) [OF no_limit])
  with fresh assms(2) show ?thesis by simp
next
  case (Some kk)
  show ?thesis
  proof (cases "has_key kk (toasts st1)")
    case True
    with assms(1) Some have "toasts st' = map (\<lambda>t. if key t = kk
             then \<lparr>message = message tp, onDismiss = onDismiss tp, key = kk\<rparr> else t) (toasts st1)"
      by (auto simp: show_toast_below(1) [OF no_limit])
    moreover have "map key (map (\<lambda>t. if key t = kk
             then \<lparr>message = message tp, onDismiss = onDismiss tp, key = kk\<rparr> else t) (toasts st1))
          = map key (toasts st1)"
      by (induction "toasts st1") auto
    ultimately have "map key (toasts st') = map key (toasts st1)"
      by (simp only:)
    with assms(2) show ?thesis by (simp only:)
  next
    case False
    with assms(1) Some have "toasts st' =
        \<lparr>message = message tp, onDismiss = onDismiss tp, key = kk\<rparr> # toasts st1"
      by (auto simp: show_toast_below(1) [OF no_limit])
    with False assms(2) show ?thesis by (simp add: has_key_iff)
  qed
qed

lemma show_call_distinct:
  assumes "\<not> batched m" and "updateQueue i = []"
    and "show_call p m i tp k = Inr (k', i')"
    and "distinct (map key (toasts (current i)))"
    and "k = None \<Longrightarrow> \<not> has_key (auto_key (toastId (current i))) (toasts (current i))"
  shows "updateQueue i' = [] \<and> distinct (map key (toasts (current i')))"
proof -
  from show_call_unbatched [OF assms(1,2), of p tp k] obtain st1 where
    t1: "toasts st1 =
             (if truthy_maxToasts p \<and> length_is_maxToasts p (current i)
              then filter (\<lambda>t. key t \<noteq> key (last (toasts (current i)))) (toasts (current i))
              else toasts (current i))"
    and id1: "toastId st1 = toastId (current i)"
    and call: "show_call p m i tp k =
             (case show_toast (p\<lparr>maxToasts := None\<rparr>) st1 tp k of
                Inl e \<Rightarrow> Inl e
              | Inr (k', st') \<Rightarrow> Inr (k', \<lparr>current = st', updateQueue = []\<rparr>))"
    by blast
  obtain r where r: "show_toast (p\<lparr>maxToasts := None\<rparr>) st1 tp k = Inr r"
    using show_toast_total by blast
  obtain k2 st' where r2: "r = (k2, st')" by (cases r)
  from call r r2 assms(3) have i': "i' = \<lparr>current = st', updateQueue = []\<rparr>" and "k2 = k'"
    by simp_all
  with r r2 have sh: "show_toast (p\<lparr>maxToasts := None\<rparr>) st1 tp k = Inr (k', st')"
    by simp
  have sub: "set (toasts st1) \<subseteq> set (toasts (current i))"
    by (auto simp: t1)
  have d1: "distinct (map key (toasts st1))"
    using assms(4) by (simp add: t1 distinct_map_filter)
  have fresh: "k = None \<Longrightarrow> \<not> has_key (auto_key (toastId st1)) (toasts st1)"
    using assms(5) sub unfolding has_key_iff id1 by blast
  from show_nolimit_distinct [OF sh d1 fresh] i' show ?thesis by simp
qed

lemma toast_run_distinct:
  assumes "\<not> batched m"
  shows "updateQueue i = [] \<Longrightarrow> distinct (map key (toasts (current i))) \<Longrightarrow>
         toast_calls_ok p m i cs \<Longrightarrow>
         \<exists>i'. toast_run p m i cs = Inr i' \<and> distinct (map key (toasts (current i')))"
proof (induction cs arbitrary: i)
  case Nil
  then show ?case by simp
next
  case (Cons c cs)
  obtain i1 where s: "toast_step p m i c = Inr i1" using toast_step_total by blast
  have inv1: "updateQueue i1 = [] \<and> distinct (map key (toasts (current i1)))"
  proof (cases c)
    case (Show tp k)
    with s obtain k' where sh: "show_call p m i tp k = Inr (k', i1)"
      by (auto split: sum.splits)
    from Cons.prems(3) Show
    have "k = None \<Longrightarrow> \<not> has_key (auto_key (toastId (current i))) (toasts (current i))"
      by simp
    from show_call_distinct [OF assms Cons.prems(1) sh Cons.prems(2) this] show ?thesis .
  next
    case (Dismiss k te)
    with s have "i1 = dismiss_call m i k te" by simp
    with Cons.prems(2) show ?thesis
      by (simp add: dismiss_call_unbatched [OF assms Cons.prems(1)] distinct_map_filter)
  next
    case Clear
    with s have "i1 = clear_call m i" by simp
    then show ?thesis
      by (simp add: clear_call_unbatched [OF assms Cons.prems(1)])
  next
    case Flush
    with s have "i1 = i" by (simp add: flush_settled [OF Cons.prems(1)])
    with Cons.prems show ?thesis by simp
  qed
  from Cons.prems(3) s have "toast_calls_ok p m i1 cs" by simp
  from Cons.IH [OF conjunct1 [OF inv1] conjunct2 [OF inv1] this] s show ?case by simp
qed

text \<open>
  Claim C2, amended. For every sequence of \<open>openOverlay\<close>, \<open>closeOverlay\<close> and
  \<open>resetStack\<close> calls from the empty stack in which \<open>openOverlay\<close> is never given an id
  already on the stack, the stack holds no two entries with the same id. For every
  sequence of \<open>show\<close>, \<open>dismiss\<close> and \<open>clear\<close> calls from the empty toast list, made
  outside a batch (each update is applied before the next call), in which no un-keyed
  \<open>show\<close> generates a key that is already in the list, every call returns and the toast
  list holds no two entries with the same key, with or without \<open>StrictMode\<close>.
\<close>

theorem no_duplicate_ids_keys:
  "(overlay_opens_fresh empty_OverlayStack cs \<longrightarrow>
      distinct (map overlay_id (stack (overlay_run empty_OverlayStack cs))))
   \<and> (\<not> batched m \<and> toast_calls_ok p m new_OverlayToasterInstance ts \<longrightarrow>
        (\<exists>i. toast_run p m new_OverlayToasterInstance ts = Inr i
             \<and> distinct (map key (toasts (current i)))))"
proof (intro conjI impI)
  assume "overlay_opens_fresh empty_OverlayStack cs"
  with overlay_run_distinct [of empty_OverlayStack cs]
  show "distinct (map overlay_id (stack (overlay_run empty_OverlayStack cs)))"
    by (simp add: empty_OverlayStack_def)
next
  assume a: "\<not> batched m \<and> toast_calls_ok p m new_OverlayToasterInstance ts"
  then have nb: "\<not> batched m" and ok: "toast_calls_ok p m new_OverlayToasterInstance ts"
    by simp_all
  have q: "updateQueue new_OverlayToasterInstance = []"
    and d: "distinct (map key (toasts (current new_OverlayToasterInstance)))"
    by (simp_all add: new_OverlayToasterInstance_def initial_OverlayToaster_def)
  from toast_run_distinct [OF nb q d ok]
  show "\<exists>i. toast_run p m new_OverlayToasterInstance ts = Inr i
           \<and> distinct (map key (toasts (current i)))" .
qed

text \<open>A disciplined run on each manager, the toaster under \<open>StrictMode\<close>.\<close>

theorem no_duplicates_witness:
  "overlay_opens_fresh empty_OverlayStack
     [OpenOverlay dialog_a, OpenOverlay popover_b, CloseOverlay dialog_a, ResetStack, OpenOverlay dialog_a]
   \<and> distinct (map overlay_id (stack (overlay_run empty_OverlayStack
     [OpenOverlay dialog_a, OpenOverlay popover_b, CloseOverlay dialog_a, ResetStack, OpenOverlay dialog_a])))
   \<and> \<not> batched unbatched_strict
   \<and> toast_calls_ok max_two unbatched_strict new_OverlayToasterInstance
        [Show toast_A None, Show toast_B (Some ''b''), Dismiss ''toast-0'' None, Show toast_C None,
         Show toast_A (Some ''b'')]
   \<and> (\<exists>i. toast_run max_two unbatched_strict new_OverlayToasterInstance
        [Show toast_A None, Show toast_B (Some ''b''), Dismiss ''toast-0'' None, Show toast_C None,
         Show toast_A (Some ''b'')] = Inr i
         \<and> distinct (map key (toasts (current i))))"
proof -
  have h1: "overlay_opens_fresh empty_OverlayStack
     [OpenOverlay dialog_a, OpenOverlay popover_b, CloseOverlay dialog_a, ResetStack, OpenOverlay dialog_a]"
    by (simp add: overlay_eval)
  have h2: "\<not> batched unbatched_strict"
    by (simp add: unbatched_strict_def)
  have h3: "toast_calls_ok max_two unbatched_strict new_OverlayToasterInstance
        [Show toast_A None, Show toast_B (Some ''b''), Dismiss ''toast-0'' None, Show toast_C None,
         Show toast_A (Some ''b'')]"
    by (simp add: toast_eval)
  from no_duplicate_ids_keys [of
     "[OpenOverlay dialog_a, OpenOverlay popover_b, CloseOverlay dialog_a, ResetStack, OpenOverlay dialog_a]"
     unbatched_strict max_two
     "[Show toast_A None, Show toast_B (Some ''b''), Dismiss ''toast-0'' None, Show toast_C None,
       Show toast_A (Some ''b'')]"]
    h1 h2 h3
  show ?thesis by blast
qed

text \<open>
  Claim C2 as stated fails: \<open>openOverlay\<close> pushes without looking at the stack, so
  opening the same id twice leaves it there twice; an un-keyed \<open>show\<close> prepends without
  looking at the list, so after \<^verbatim>\<open>show(A, "toast-0")\<close> the first un-keyed \<open>show\<close>
  generates the key \<^verbatim>\<open>toast-0\<close> a second time; and in one batch \<open>isNewToastKey\<close> reads
  the list of the last render, so \<^verbatim>\<open>show(A, "x")\<close>, \<^verbatim>\<open>show(B, "x")\<close> prepends twice.
\<close>

theorem no_duplicates_counterexample:
  "\<not> distinct (map overlay_id
        (stack (overlay_run empty_OverlayStack [OpenOverlay dialog_a, OpenOverlay dialog_a])))
   \<and> toast_run max_two unbatched new_OverlayToasterInstance
        [Show toast_A (Some ''toast-0''), Show toast_B None]
       = Inr \<lparr>current =
                \<lparr>toasts = [\<lparr>message = ''B'', onDismiss = Some ''onDismissB'', key = ''toast-0''\<rparr>,
                           \<lparr>message = ''A'', onDismiss = Some ''onDismissA'', key = ''toast-0''\<rparr>],
                 toastId = 1, onDismiss_calls = []\<rparr>,
              updateQueue = []\<rparr>
   \<and> toast_run max_two in_batch new_OverlayToasterInstance
        [Show toast_A (Some ''x''), Show toast_B (Some ''x''), Flush]
       = Inr \<lparr>current =
                \<lparr>toasts = [\<lparr>message = ''B'', onDismiss = Some ''onDismissB'', key = ''x''\<rparr>,
                           \<lparr>message = ''A'', onDismiss = Some ''onDismissA'', key = ''x''\<rparr>],
                 toastId = 0, onDismiss_calls = []\<rparr>,
              updateQueue = []\<rparr>"
  by (simp add: overlay_eval toast_eval)

end
